theory Spec2Isabelle
  imports Complex_Main "HOL-Library.Multiset"
begin

section \<open>JavaScript primitives used by gen-complex.js\<close>

text \<open>
  A JavaScript number that holds an integer is modelled by that integer, an \<open>int\<close>;
  numbers with a fractional part are not modelled. A BigNumber object is exact, and one
  that holds an integer is an \<open>int\<close> as well. The remainder operator \<open>%\<close> of
  JavaScript (and \<open>BigNumber.mod\<close> in its default mode) truncates: the result takes the
  sign of the dividend. Every use below has a divisor of at least 2.
\<close>

definition js_rem :: "int \<Rightarrow> int \<Rightarrow> int" where
  "js_rem a b = sgn a * (\<bar>a\<bar> mod \<bar>b\<bar>)"

text \<open>\<open>Array.prototype.slice(from, to)\<close> with non-negative bounds.\<close>

definition slice :: "nat \<Rightarrow> nat \<Rightarrow> 'a list \<Rightarrow> 'a list" where
  "slice from to xs = take (to - from) (drop from xs)"

text \<open>\<open>Array.prototype.indexOf\<close>: the first index holding the value, or -1.\<close>

fun indexOf :: "'a list \<Rightarrow> 'a \<Rightarrow> int" where
  "indexOf [] v = -1"
| "indexOf (x # xs) v = (if x = v then 0 else (let j = indexOf xs v in if j = -1 then -1 else j + 1))"

text \<open>\<open>String.prototype.padStart(n, '0')\<close>.\<close>

definition padStart :: "nat \<Rightarrow> string \<Rightarrow> string" where
  "padStart n s = replicate (n - length s) CHR ''0'' @ s"

text \<open>
  Digits of a natural number in a radix of at most 10, most significant first; this is
  what \<open>Number.prototype.toString(radix)\<close> and \<open>BigNumber.toFixed()\<close> print for a
  non-negative integer.
\<close>

fun digits :: "nat \<Rightarrow> nat \<Rightarrow> string" where
  "digits radix n =
     (if radix < 2 \<or> n < radix then [''0123456789'' ! n]
      else digits radix (n div radix) @ [''0123456789'' ! (n mod radix)])"

declare digits.simps [simp del]

definition toStringRadix :: "nat \<Rightarrow> int \<Rightarrow> string" where
  "toStringRadix radix n =
     (if n < 0 then CHR ''-'' # digits radix (nat (- n)) else digits radix (nat n))"

definition toFixed :: "int \<Rightarrow> string" where
  "toFixed x = toStringRadix 10 x"

text \<open>Reading a string of decimal digits back as a number, to state that \<open>toFixed\<close> is exact.\<close>

definition digit_value :: "char \<Rightarrow> nat" where
  "digit_value c = nat (indexOf ''0123456789'' c)"

definition decimal_value :: "string \<Rightarrow> nat" where
  "decimal_value s = foldl (\<lambda>acc c. acc * 10 + digit_value c) 0 s"

subsection \<open>Doubles and the BigNumber conversions\<close>

text \<open>
  A JavaScript number is a double. \<open>nearest_double z\<close> is the double nearest to the
  non-negative integer \<open>z\<close>, ties to the even significand: an integer of at most 53
  bits is a double, a longer one is rounded to 53 bits. (Overflow to \<open>Infinity\<close>, from
  \<open>2^1024\<close> on, is not modelled.)
\<close>

function bit_length :: "int \<Rightarrow> nat" where
  "bit_length z = (if z \<le> 0 then 0 else Suc (bit_length (z div 2)))"
  by pat_completeness auto
termination
  by (relation "measure nat") auto

declare bit_length.simps [simp del]

definition round_div :: "int \<Rightarrow> int \<Rightarrow> int" where
  "round_div n d =
     (let q = n div d; r = n mod d
      in if d < 2 * r \<or> (2 * r = d \<and> odd q) then q + 1 else q)"

definition nearest_double :: "int \<Rightarrow> int" where
  "nearest_double z =
     (if bit_length z \<le> 53 then z
      else (let sh = bit_length z - 53 in round_div z (2 ^ sh) * 2 ^ sh))"

text \<open>
  \<open>new BigNumber(x)\<close>, and \<open>times(t)\<close> and \<open>mod(m)\<close> for their argument, read a
  JavaScript number through its decimal printout \<open>String(x)\<close>. For the integer \<open>x\<close>
  of a double, ECMAScript prints the shortest digit string \<open>s\<close> (at most 17 digits) such
  that \<open>s * 10^e\<close> still rounds to \<open>x\<close>, taking the closest one, and the even \<open>s\<close> at
  a tie: \<open>Number_printed\<close>, which tries \<open>k = 1, ..., 17\<close> digits with the multiples
  \<open>lo\<close> and \<open>hi\<close> of \<open>10^(d-k)\<close> around \<open>x\<close>. The value is \<open>x\<close> itself below
  \<open>2^53\<close> (lemma \<open>BigNumber_new_safe\<close>) and may differ above: \<open>2^57\<close> is read as
  144115188075855870. An \<open>int\<close> that is no double is not a value the code can receive.
\<close>

function digit_count :: "int \<Rightarrow> nat" where
  "digit_count x = (if x < 10 then 1 else Suc (digit_count (x div 10)))"
  by pat_completeness auto
termination
  by (relation "measure nat") auto

declare digit_count.simps [simp del]

definition closest :: "int \<Rightarrow> int \<Rightarrow> int \<Rightarrow> int \<Rightarrow> int" where
  "closest x p lo hi =
     (if x - lo < hi - x then lo
      else if hi - x < x - lo then hi
      else if even (lo div p) then lo else hi)"

definition pick_shortest :: "int \<Rightarrow> int \<Rightarrow> int \<Rightarrow> int \<Rightarrow> int option" where
  "pick_shortest x p lo hi =
     (if nearest_double lo = x then
        (if nearest_double hi = x then Some (closest x p lo hi) else Some lo)
      else if nearest_double hi = x then Some hi
      else None)"

definition shortest_at :: "int \<Rightarrow> nat \<Rightarrow> int option" where
  "shortest_at x k =
     (let d = digit_count x in
      if d < k then None
      else (let p = 10 ^ (d - k); lo = (x div p) * p in pick_shortest x p lo (lo + p)))"

fun first_shortest :: "int \<Rightarrow> nat list \<Rightarrow> int option" where
  "first_shortest x [] = None"
| "first_shortest x (k # ks) =
     (case shortest_at x k of Some c \<Rightarrow> Some c | None \<Rightarrow> first_shortest x ks)"

definition Number_printed :: "int \<Rightarrow> int" where
  "Number_printed x = (case first_shortest x [1 ..< 18] of Some c \<Rightarrow> c | None \<Rightarrow> x)"

definition BigNumber_new :: "int \<Rightarrow> int" where
  "BigNumber_new x = sgn x * Number_printed \<bar>x\<bar>"

text \<open>\<open>x.toNumber()\<close> of a BigNumber holding an integer: the nearest double.\<close>

definition BigNumber_toNumber :: "int \<Rightarrow> int" where
  "BigNumber_toNumber x = sgn x * nearest_double \<bar>x\<bar>"

text \<open>
  Double arithmetic for \<open>fastEuclid\<close>. A double is given as \<open>(m, e)\<close>, its value
  \<open>m * 2^e\<close>. \<open>double_div h s\<close> is the quotient \<open>h / s\<close> of two integers
  (\<open>s > 0\<close>) rounded to a 53-bit significand; \<open>double_mul i x\<close> is the product of an
  integer and a double, rounded; \<open>double_floor\<close> is \<open>Math.floor\<close>. (Subnormal results
  and overflow are not modelled.)
\<close>

type_synonym double = "int \<times> int"

definition double_div :: "int \<Rightarrow> int \<Rightarrow> double" where
  "double_div h s =
     (if h = 0 then (0, 0)
      else
        (let a = \<bar>h\<bar>;
             e0 = int (bit_length a) - int (bit_length s);
             e = (if s * 2 ^ nat e0 \<le> a * 2 ^ nat (- e0) then e0 else e0 - 1);
             m = round_div (a * 2 ^ nat (52 - e)) (s * 2 ^ nat (e - 52))
         in (sgn h * m, e - 52)))"

definition double_mul :: "int \<Rightarrow> double \<Rightarrow> double" where
  "double_mul i x = (sgn (i * fst x) * nearest_double \<bar>i * fst x\<bar>, snd x)"

definition double_floor :: "double \<Rightarrow> int" where
  "double_floor x = (if 0 \<le> snd x then fst x * 2 ^ nat (snd x) else fst x div 2 ^ nat (- snd x))"


section \<open>The recurrence engine\<close>

text \<open>
  The loop of \<open>numBonacci\<close>: \<open>cur = n1.times(t).plus(n2); n2 = n1; n1 = cur;
  arr.push(cur)\<close>, run \<open>k\<close> more times. \<open>times\<close> and \<open>plus\<close> of BigNumber are exact;
  \<open>times(t)\<close> reads the number \<open>t\<close> as \<open>new BigNumber(t)\<close> does.
\<close>

fun numBonacci_loop :: "nat \<Rightarrow> int \<Rightarrow> int \<Rightarrow> int \<Rightarrow> int list \<Rightarrow> int list" where
  "numBonacci_loop 0 t n1 n2 arr = arr"
| "numBonacci_loop (Suc k) t n1 n2 arr =
     (let cur = n1 * BigNumber_new t + n2 in numBonacci_loop k t cur n1 (arr @ [cur]))"

definition numBonacci :: "int \<Rightarrow> int \<Rightarrow> int \<Rightarrow> int \<Rightarrow> int list" where
  "numBonacci len s1 s2 t =
     (let n1 = BigNumber_new s2; n2 = BigNumber_new s1;
          len' = max 1 (len - 2);
          arr = [n2, n1]
      in if len' < 2 then slice 0 (nat len') arr
         else numBonacci_loop (nat len') t n1 n2 arr)"

text \<open>
  The output of the exported generators is either a JavaScript number
  (\<open>x.toNumber()\<close>, a double, taken as the parameter \<open>toNumber\<close>, which is
  \<open>BigNumber_toNumber\<close> for the integers of these sequences) or an exact decimal string
  (\<open>x.toFixed()\<close>).
\<close>

datatype 'n rendered = AsNumber 'n | AsString string

definition render :: "(int \<Rightarrow> 'n) \<Rightarrow> bool \<Rightarrow> int \<Rightarrow> 'n rendered" where
  "render toNumber toString x = (if toString then AsString (toFixed x) else AsNumber (toNumber x))"

definition nbonacci :: "(int \<Rightarrow> 'n) \<Rightarrow> int \<Rightarrow> int \<Rightarrow> int \<Rightarrow> int \<Rightarrow> bool \<Rightarrow> 'n rendered list" where
  "nbonacci toNumber len s1 s2 t toString = map (render toNumber toString) (numBonacci len s1 s2 t)"

definition fibonacci :: "(int \<Rightarrow> 'n) \<Rightarrow> int \<Rightarrow> int \<Rightarrow> bool \<Rightarrow> 'n rendered list" where
  "fibonacci toNumber len offset toString =
     (let f = map (render toNumber toString) (numBonacci (len + offset) 0 1 1)
      in if offset > 0 then slice (nat offset) (nat (offset + len)) f else f)"

section \<open>The Pisano period\<close>

text \<open>
  The scan of \<open>pisanoPeriod\<close>. \<open>rest\<close> holds the elements \<open>seq[i], seq[i+1], ...\<close> still
  to visit, \<open>p\<close> the window and \<open>l\<close> the number of windows compared so far. The result is
  \<open>Some\<close> of the returned slice, or \<open>None\<close> when the \<open>for\<close> loop runs to its end.
\<close>

definition window_equals :: "int list \<Rightarrow> nat" where
  "window_equals p =
     length (filter (\<lambda>k. k < 3 \<and> p ! k = [0, 1, 1] ! k) [0 ..< length p])"

fun pisano_scan :: "int list \<Rightarrow> int list \<Rightarrow> int list \<Rightarrow> nat \<Rightarrow> int list option" where
  "pisano_scan seq [] p l = None"
| "pisano_scan seq (x # rest) p l =
     (let p' = p @ [x] in
      if length p' > 2 then
        (if window_equals p' = 3 \<and> l > 3 then Some (slice 0 l seq)
         else pisano_scan seq rest (slice 1 3 p') (l + 1))
      else pisano_scan seq rest p' l)"

text \<open>
  \<open>pisanoPeriod\<close> calls itself with twice the length when the scan finds nothing, with
  no bound: a call that never returns is the value \<open>None\<close>.
\<close>

partial_function (option) pisanoPeriod :: "int \<Rightarrow> int \<Rightarrow> int list option" where
  "pisanoPeriod m len =
     (let seq = map (\<lambda>x. BigNumber_toNumber (js_rem x (BigNumber_new m))) (numBonacci len 0 1 1) in
      case pisano_scan seq seq [] 0 of
        Some r \<Rightarrow> Some r
      | None \<Rightarrow> pisanoPeriod m (len * 2))"

declare pisanoPeriod.simps [code]

definition pisano :: "int \<Rightarrow> int \<Rightarrow> int list option" where
  "pisano m len =
     (if m < 2 then Some [0]
      else if len < 1 then pisanoPeriod m 32
      else Some (map (\<lambda>x. BigNumber_toNumber (js_rem x (BigNumber_new m))) (numBonacci len 0 1 1)))"

text \<open>
  Reference definition, following the specification's words: the Fibonacci numbers
  \<open>F(0) = 0\<close>, \<open>F(1) = 1\<close>, \<open>F(n) = F(n-1) + F(n-2)\<close>.
\<close>

fun fib_spec :: "nat \<Rightarrow> int" where
  "fib_spec 0 = 0"
| "fib_spec (Suc 0) = 1"
| "fib_spec (Suc (Suc n)) = fib_spec (Suc n) + fib_spec n"

section \<open>Euclidean rhythms\<close>

text \<open>
  Reading a JavaScript array: an index outside the array gives \<open>undefined\<close>, here
  \<open>None\<close>. A comparison \<open>undefined > 1\<close> is false and \<open>undefined != 0\<close> is true.
\<close>

definition js_at :: "'a list \<Rightarrow> nat \<Rightarrow> 'a option" where
  "js_at xs i = (if i < length xs then Some (xs ! i) else None)"

text \<open>
  Modelled from the spec: \<open>Transform.rotate\<close> lives in transform.js, which is not part
  of the sources at hand. The specification describes it as a plain positional rotation
  of the array that shifts the element at index \<open>j\<close> to index \<open>j + r\<close>, cyclically
  (\<open>euclid\<close> passes \<open>rotate - indexOfFirstOne\<close> so that the first 1 lands at position
  \<open>rotate\<close>).
\<close>

definition Transform_rotate :: "'a list \<Rightarrow> int \<Rightarrow> 'a list" where
  "Transform_rotate a r =
     map (\<lambda>i. a ! nat ((int i - r) mod int (length a))) [0 ..< length a]"

text \<open>
  \<open>fastEuclid\<close>: \<open>v = Math.floor(i * (h / s))\<close> in double arithmetic, the quotient
  rounded first and the product after it.
\<close>

fun fastEuclid_loop :: "int \<Rightarrow> int \<Rightarrow> nat list \<Rightarrow> int \<Rightarrow> int list \<Rightarrow> int list" where
  "fastEuclid_loop s h [] d arr = arr"
| "fastEuclid_loop s h (i # rest) d arr =
     (let v = double_floor (double_mul (int i) (double_div h s))
      in fastEuclid_loop s h rest v (arr @ [if v \<noteq> d then 1 else 0]))"

definition fastEuclid :: "int \<Rightarrow> int \<Rightarrow> int \<Rightarrow> int list" where
  "fastEuclid s h r =
     (let arr = fastEuclid_loop s h [0 ..< nat s] (- 1) []
      in if r \<noteq> 0 then Transform_rotate arr r else arr)"

text \<open>
  The \<open>while\<close> loop of \<open>euclid\<close> over the module-level arrays \<open>counts\<close> and
  \<open>remainders\<close>, passed explicitly. \<open>Math.floor(divisor / remainders[level])\<close> is
  \<open>div\<close>, since the divisor of the quotient is greater than 1 there. The result is the
  state at loop exit; a loop that never exits is \<open>None\<close>.
\<close>

partial_function (option) euclid_loop ::
    "int \<Rightarrow> int list \<Rightarrow> int list \<Rightarrow> nat \<Rightarrow> (int \<times> int list \<times> int list \<times> nat) option" where
  "euclid_loop divisor counts remainders level =
     (case js_at remainders level of
        None \<Rightarrow> Some (divisor, counts, remainders, level)
      | Some r \<Rightarrow>
          if r > 1 then
            euclid_loop r (counts @ [divisor div r]) (remainders @ [js_rem divisor r]) (level + 1)
          else Some (divisor, counts, remainders, level))"

declare euclid_loop.simps [code]

text \<open>
  \<open>build\<close> pushes onto the module-level array \<open>pattern\<close>, which \<open>euclid\<close> empties
  before the call; the model returns the pushed elements in order. The \<open>for\<close> loop calls
  \<open>build(level-1)\<close> \<open>counts[level]\<close> times, and each call pushes the same elements since
  \<open>counts\<close> and \<open>remainders\<close> do not change. A level below -2 recurses without end in the
  source (the call stack overflows): \<open>None\<close>.
\<close>

function build :: "int list \<Rightarrow> int list \<Rightarrow> int \<Rightarrow> int list option" where
  "build counts remainders level =
     (if level = - 1 then Some [0]
      else if level = - 2 then Some [1]
      else if level < - 2 then None
      else
        (let n = (case js_at counts (nat level) of None \<Rightarrow> 0 | Some c \<Rightarrow> nat c);
             body = (if n = 0 then Some []
                     else (case build counts remainders (level - 1) of
                             None \<Rightarrow> None
                           | Some p \<Rightarrow> Some (concat (replicate n p))));
             rest = (if js_at remainders (nat level) \<noteq> Some 0
                     then build counts remainders (level - 2) else Some [])
         in case body of
              None \<Rightarrow> None
            | Some b \<Rightarrow> (case rest of None \<Rightarrow> None | Some t \<Rightarrow> Some (b @ t))))"
  by pat_completeness auto
termination
  by (relation "measure (\<lambda>(counts, remainders, level). nat (level + 2))") auto

declare build.simps [simp del]

definition euclid :: "int \<Rightarrow> int \<Rightarrow> int \<Rightarrow> int list option" where
  "euclid steps beats rot =
     (case euclid_loop (steps - beats) [] [beats] 0 of
        None \<Rightarrow> None
      | Some (divisor, counts, remainders, level) \<Rightarrow>
          (case build (counts @ [divisor]) remainders (int level) of
             None \<Rightarrow> None
           | Some pattern \<Rightarrow> Some (Transform_rotate pattern (rot - indexOf pattern 1))))"

section \<open>The cellular automaton\<close>

text \<open>
  The JavaScript values that a cell or a table entry can hold in this model: an integer
  number, \<open>NaN\<close> and \<open>undefined\<close>. \<open>Array.prototype.join('')\<close> prints a number in
  decimal, \<open>NaN\<close> as its name and \<open>undefined\<close> as the empty string.
\<close>

datatype cell = Num int | NaN | Undefined

fun cell_str :: "cell \<Rightarrow> string" where
  "cell_str (Num n) = toStringRadix 10 n"
| "cell_str NaN = ''NaN''"
| "cell_str Undefined = []"

definition join :: "cell list \<Rightarrow> string" where
  "join cs = concat (map cell_str cs)"

text \<open>
  \<open>Number(r[i])\<close> for a string (or an array of one-character strings) \<open>r\<close>: a digit
  gives its value, any other character that can occur here (\<open>-\<close> and the letters of
  \<open>NaN\<close> and \<open>Infinity\<close>) gives \<open>NaN\<close>, and so does an index past the end
  (\<open>Number(undefined)\<close>).
\<close>

definition Number_char :: "char \<Rightarrow> cell" where
  "Number_char c = (if c \<in> set ''0123456789'' then Num (indexOf ''0123456789'' c) else NaN)"

definition Number_at :: "string \<Rightarrow> nat \<Rightarrow> cell" where
  "Number_at r i = (case js_at r i of None \<Rightarrow> NaN | Some c \<Rightarrow> Number_char c)"

text \<open>Reading \<open>this._state[idx]\<close>: \<open>undefined\<close> outside the array.\<close>

definition cell_at :: "cell list \<Rightarrow> int \<Rightarrow> cell" where
  "cell_at xs idx = (if 0 \<le> idx \<and> idx < int (length xs) then xs ! nat idx else Undefined)"

type_synonym table = "string \<rightharpoonup> cell"

text \<open>
  The numbers of the model: the integers, \<open>NaN\<close> and the two infinities. (Numbers with
  a fractional part are not modelled.) \<open>toString(2)\<close> prints an integer in binary, with
  a minus sign when negative, and the others by name.
\<close>

datatype js_number = Integer int | NotANumber | PlusInfinity | MinusInfinity

fun number_toString2 :: "js_number \<Rightarrow> string" where
  "number_toString2 (Integer n) = toStringRadix 2 n"
| "number_toString2 NotANumber = ''NaN''"
| "number_toString2 PlusInfinity = ''Infinity''"
| "number_toString2 MinusInfinity = ''-Infinity''"

definition isNaN :: "js_number \<Rightarrow> bool" where
  "isNaN x \<longleftrightarrow> x = NotANumber"

text \<open>
  The values a caller can pass to \<open>rule\<close> and \<open>feed\<close>. A string comes with the number
  that the built-in \<open>Number()\<close> reads from it (\<open>NaN\<close> when it is no numeric literal). An
  object that is not an array comes with its own enumerable properties, which is all
  that \<open>Object.keys\<close> and the spread \<open>{...a}\<close> see of it, and is either a plain object
  (an object mapping) or another object, such as a RegExp, a Map or a Date, which
  has no such properties unless some were added.
\<close>

datatype object_kind = PlainObject | OtherObject

datatype js_value =
    JSUndefined
  | JSNull
  | JSBoolean bool
  | JSNumber js_number
  | JSString string js_number
  | JSBigInt int
  | JSSymbol
  | JSFunction
  | JSArray "cell list"
  | JSObject object_kind "(string \<times> cell) list"

datatype js_type =
    TypeUndefined | TypeObject | TypeBoolean | TypeNumber | TypeString | TypeBigint
  | TypeSymbol | TypeFunction

fun typeof :: "js_value \<Rightarrow> js_type" where
  "typeof JSUndefined = TypeUndefined"
| "typeof JSNull = TypeObject"
| "typeof (JSBoolean b) = TypeBoolean"
| "typeof (JSNumber n) = TypeNumber"
| "typeof (JSString s n) = TypeString"
| "typeof (JSBigInt k) = TypeBigint"
| "typeof JSSymbol = TypeSymbol"
| "typeof JSFunction = TypeFunction"
| "typeof (JSArray xs) = TypeObject"
| "typeof (JSObject k ps) = TypeObject"

fun isArray :: "js_value \<Rightarrow> bool" where
  "isArray (JSArray xs) = True"
| "isArray a = False"

text \<open>The elements of an array; read only where \<open>Array.isArray\<close> holds.\<close>

fun elements :: "js_value \<Rightarrow> cell list" where
  "elements (JSArray xs) = xs"
| "elements a = []"

datatype js_error = TypeError

text \<open>
  The own enumerable properties that \<open>Object.keys(a)\<close> lists and \<open>{...a}\<close> copies.
  \<open>Object.keys(null)\<close> throws. \<open>rule\<close> reads them only of values of type \<open>object\<close>
  that are not arrays, that is of \<open>null\<close> and of objects.
\<close>

fun own_properties :: "js_value \<Rightarrow> js_error + (string \<times> cell) list" where
  "own_properties JSNull = Inl TypeError"
| "own_properties (JSObject k ps) = Inr ps"
| "own_properties a = Inr []"

text \<open>
  The built-in conversion \<open>Number(a)\<close>. A Symbol makes it throw; a BigInt gives the
  nearest double. \<open>rule\<close> converts only values that are neither arrays nor of type
  \<open>object\<close>; an array or an object would be converted through its own \<open>valueOf\<close> and
  \<open>toString\<close>, which is not modelled (the last equation).
\<close>

fun js_Number :: "js_value \<Rightarrow> js_error + js_number" where
  "js_Number JSUndefined = Inr NotANumber"
| "js_Number JSNull = Inr (Integer 0)"
| "js_Number (JSBoolean b) = Inr (Integer (if b then 1 else 0))"
| "js_Number (JSNumber n) = Inr n"
| "js_Number (JSString s n) = Inr n"
| "js_Number (JSBigInt k) =
     Inr (if 2 ^ 1024 \<le> BigNumber_toNumber \<bar>k\<bar>
          then (if 0 \<le> k then PlusInfinity else MinusInfinity)
          else Integer (BigNumber_toNumber k))"
| "js_Number JSSymbol = Inl TypeError"
| "js_Number JSFunction = Inr NotANumber"
| "js_Number a = Inr NotANumber"

text \<open>
  The field \<open>_rule\<close> holds the characters of the binary string after construction, the
  argument after \<open>rule\<close> took the number branch and \<open>undefined\<close> after it took the
  object branch; no method reads it.
\<close>

datatype rule_field = RuleBits string | RuleValue js_value | RuleUndefined

record automaton =
  au_length :: int
  au_state :: "cell list"
  au_rule :: rule_field
  au_table :: table

definition ruleToBinary :: "js_number \<Rightarrow> string" where
  "ruleToBinary r = padStart 8 (number_toString2 r)"

definition binaryToTable :: "string \<Rightarrow> table" where
  "binaryToTable r =
     foldl (\<lambda>c i. c(padStart 3 (toStringRadix 2 (7 - int i)) \<mapsto> Number_at r i))
       Map.empty [0 ..< 8]"

text \<open>The constructor, for an integer length and an integer rule number.\<close>

definition Automaton :: "int \<Rightarrow> int \<Rightarrow> automaton" where
  "Automaton l r =
     (let len = max 3 l;
          st = replicate (nat len) (Num 0);
          rl = ruleToBinary (Integer r)
      in \<lparr>au_length = len, au_state = st, au_rule = RuleBits rl, au_table = binaryToTable rl\<rparr>)"

text \<open>
  The method \<open>rule\<close>, with the tests of the source in their order: \<open>Array.isArray(a)\<close>,
  then \<open>typeof a === 'object'\<close>, then \<open>isNaN(Number(a))\<close>. What \<open>console.log\<close> and
  \<open>console.error\<close> print is returned as a list of diagnostics; a thrown exception is
  the left summand.
\<close>

datatype diagnostic = WarnRuleLength | WarnRuleKeys | ErrorExpectedNumber | WarnFeed

definition rule :: "js_value \<Rightarrow> automaton \<Rightarrow> js_error + diagnostic list \<times> automaton" where
  "rule a this =
     (if isArray a then
        (let diags = (if length (elements a) \<noteq> 8 then [WarnRuleLength] else []);
             r = padStart 8 (join (slice 0 8 (elements a)))
         in Inr (diags, this\<lparr>au_table := binaryToTable r\<rparr>))
      else if typeof a = TypeObject then
        (case own_properties a of
           Inl e \<Rightarrow> Inl e
         | Inr ps \<Rightarrow>
             (let diags = (if length (remdups (map fst ps)) \<noteq> 8 then [WarnRuleKeys] else [])
              in Inr (diags, this\<lparr>au_rule := RuleUndefined, au_table := map_of ps\<rparr>)))
      else
        (case js_Number a of
           Inl e \<Rightarrow> Inl e
         | Inr n \<Rightarrow>
             if isNaN n then Inr ([ErrorExpectedNumber], this)
             else
               (let b = ruleToBinary n
                in Inr ([], this\<lparr>au_rule := RuleValue a, au_table := binaryToTable b\<rparr>))))"

text \<open>The method \<open>feed\<close>: \<open>!Array.isArray(a) || a.length < 3\<close> warns and changes nothing.\<close>

definition feed :: "js_value \<Rightarrow> automaton \<Rightarrow> diagnostic list \<times> automaton" where
  "feed a this =
     (if \<not> isArray a \<or> length (elements a) < 3 then ([WarnFeed], this)
      else ([], this\<lparr>au_state := elements a, au_length := int (length (elements a))\<rparr>))"

text \<open>
  The method \<open>next\<close>. In \<open>(i-1 % l) + l) % l\<close> the remainder binds tighter than the
  subtraction, so the index is \<open>((i - (1 % l)) + l) % l\<close>. The result is the returned
  array and the automaton that stores it.
\<close>

definition automaton_next :: "automaton \<Rightarrow> cell list \<times> automaton" where
  "automaton_next this =
     (let l = au_length this;
          n = map (\<lambda>i.
                let left = cell_at (au_state this) (js_rem ((i - js_rem 1 l) + l) l);
                    right = cell_at (au_state this) (js_rem ((i + js_rem 1 l) + l) l)
                in case au_table this (join [left, cell_at (au_state this) i, right]) of
                     None \<Rightarrow> Undefined
                   | Some v \<Rightarrow> v)
              (map int [0 ..< nat l])
      in (n, this\<lparr>au_state := n\<rparr>))"

text \<open>
  A sequence of method calls on one automaton. A call that throws (before any
  assignment) leaves the object as it was.
\<close>

datatype call = CallRule js_value | CallFeed js_value | CallNext

fun perform :: "automaton \<Rightarrow> call \<Rightarrow> automaton" where
  "perform this (CallRule a) = (case rule a this of Inl e \<Rightarrow> this | Inr (diags, this') \<Rightarrow> this')"
| "perform this (CallFeed a) = snd (feed a this)"
| "perform this CallNext = snd (automaton_next this)"

definition run :: "automaton \<Rightarrow> call list \<Rightarrow> automaton" where
  "run this calls = foldl perform this calls"

text \<open>What a call of \<open>rule\<close> printed; nothing when it threw.\<close>

definition diagnostics :: "js_error + diagnostic list \<times> automaton \<Rightarrow> diagnostic list" where
  "diagnostics r = (case r of Inl e \<Rightarrow> [] | Inr (diags, this') \<Rightarrow> diags)"

text \<open>The eight 3-bit neighbourhood strings.\<close>

definition neighborhoods :: "string set" where
  "neighborhoods = {''000'', ''001'', ''010'', ''011'', ''100'', ''101'', ''110'', ''111''}"

text \<open>The invariant of the state: its length is the length field, at least 3.\<close>

definition state_ok :: "automaton \<Rightarrow> bool" where
  "state_ok this \<longleftrightarrow> int (length (au_state this)) = au_length this \<and> 3 \<le> au_length this"

section \<open>Properties of the recurrence engine\<close>

text \<open>
  Numbers below \<open>2^53\<close> are read exactly: a double, printed and read back, is the
  same integer, since whatever \<open>Number_printed\<close> returns rounds to the number it was
  given.
\<close>

lemma bit_length_lower: "0 < z \<Longrightarrow> 2 ^ (bit_length z - 1) \<le> z"
proof (induction "nat z" arbitrary: z rule: less_induct)
  case less
  show ?case
  proof (cases "z div 2 \<le> 0")
    case True
    with less.prems have "z = 1" by linarith
    then show ?thesis by (simp add: bit_length.simps [of 1] bit_length.simps [of 0])
  next
    case False
    then have pos: "0 < z div 2" by simp
    have ih: "2 ^ (bit_length (z div 2) - 1) \<le> z div 2"
      by (rule less.hyps) (use less.prems pos in simp_all)
    have bl: "bit_length z = Suc (bit_length (z div 2))"
      using less.prems by (simp add: bit_length.simps [of z])
    have nz: "0 < bit_length (z div 2)"
      using pos by (simp add: bit_length.simps [of "z div 2"])
    then have "(2::int) ^ (bit_length z - 1) = 2 * 2 ^ (bit_length (z div 2) - 1)"
      unfolding bl by (cases "bit_length (z div 2)") simp_all
    also have "\<dots> \<le> 2 * (z div 2)" using ih by simp
    also have "\<dots> \<le> z" by simp
    finally show ?thesis .
  qed
qed

lemma bit_length_small:
  assumes "z < 2 ^ n"
  shows "bit_length z \<le> n"
proof (rule ccontr)
  assume n: "\<not> bit_length z \<le> n"
  then have b: "n \<le> bit_length z - 1" by simp
  have "0 < z" using n by (cases "z \<le> 0") (simp_all add: bit_length.simps [of z])
  then have "2 ^ (bit_length z - 1) \<le> z" by (rule bit_length_lower)
  moreover have "(2::int) ^ n \<le> 2 ^ (bit_length z - 1)" using b by (simp add: power_increasing)
  ultimately show False using assms by linarith
qed

lemma nearest_double_small:
  assumes "z < 2 ^ 53"
  shows "nearest_double z = z"
proof -
  have "bit_length z \<le> 53" by (rule bit_length_small [OF assms])
  then show ?thesis by (simp add: nearest_double_def)
qed

lemma nearest_double_large:
  assumes "2 ^ 53 \<le> z"
  shows "2 ^ 53 \<le> nearest_double z"
proof (cases "bit_length z \<le> 53")
  case True
  then show ?thesis using assms by (simp add: nearest_double_def)
next
  case False
  define sh where "sh = bit_length z - 53"
  have sh: "1 \<le> sh" and bl: "bit_length z - 1 = 52 + sh" using False by (simp_all add: sh_def)
  have "(0::int) < 2 ^ 53" by simp
  with assms have "0 < z" by linarith
  then have "2 ^ (52 + sh) \<le> z" using bit_length_lower [of z] bl by simp
  then have "2 ^ 52 * 2 ^ sh \<le> z" by (simp add: power_add)
  then have "2 ^ 52 \<le> z div 2 ^ sh"
    by (simp add: pos_le_divide_eq zdiv_mono1 div_mult_self_is_m) (metis div_mult_self_is_m mult.commute nonzero_mult_div_cancel_right power_not_zero zdiv_mono1 zero_less_numeral zero_less_power zero_neq_numeral)
  moreover have "z div 2 ^ sh \<le> round_div z (2 ^ sh)"
    by (simp add: round_div_def Let_def)
  ultimately have r: "2 ^ 52 \<le> round_div z (2 ^ sh)" by linarith
  have "(2::int) ^ 1 \<le> 2 ^ sh" using sh by (intro power_increasing) simp_all
  then have two: "(2::int) \<le> 2 ^ sh" by simp
  have "2 ^ 52 * 2 \<le> round_div z (2 ^ sh) * 2 ^ sh"
    by (rule mult_mono [OF r two]) (use r in simp_all)
  then have "2 ^ 53 \<le> round_div z (2 ^ sh) * 2 ^ sh" by simp
  then show ?thesis using False by (simp add: nearest_double_def Let_def sh_def)
qed

lemma nearest_double_safe:
  assumes "nearest_double c = x" and "x < 2 ^ 53"
  shows "c = x"
proof (cases "c < 2 ^ 53")
  case True
  then have "nearest_double c = c" by (rule nearest_double_small)
  with assms(1) show ?thesis by simp
next
  case False
  then have "2 ^ 53 \<le> nearest_double c" by (intro nearest_double_large) simp
  then show ?thesis using assms by simp
qed

lemma pick_shortest_rounds: "pick_shortest x p lo hi = Some c \<Longrightarrow> nearest_double c = x"
  unfolding pick_shortest_def closest_def by (simp split: if_splits)

lemma shortest_at_rounds: "shortest_at x k = Some c \<Longrightarrow> nearest_double c = x"
  unfolding shortest_at_def Let_def
  by (cases "digit_count x < k") (simp_all add: pick_shortest_rounds)

lemma first_shortest_rounds: "first_shortest x ks = Some c \<Longrightarrow> nearest_double c = x"
proof (induction ks)
  case Nil
  then show ?case by simp
next
  case (Cons k ks)
  show ?case
  proof (cases "shortest_at x k")
    case None
    with Cons show ?thesis by simp
  next
    case (Some c')
    with Cons.prems have "c' = c" by simp
    with Some show ?thesis by (simp add: shortest_at_rounds)
  qed
qed

lemma Number_printed_safe:
  assumes "x < 2 ^ 53"
  shows "Number_printed x = x"
proof (cases "first_shortest x [1 ..< 18]")
  case None
  then show ?thesis by (simp add: Number_printed_def)
next
  case (Some c)
  then have "nearest_double c = x" by (rule first_shortest_rounds)
  then have "c = x" using assms by (rule nearest_double_safe)
  with Some show ?thesis by (simp add: Number_printed_def)
qed

lemma BigNumber_new_safe: "\<bar>x\<bar> < 2 ^ 53 \<Longrightarrow> BigNumber_new x = x"
  by (simp add: BigNumber_new_def Number_printed_safe mult_sgn_abs)

lemma BigNumber_toNumber_safe: "\<bar>x\<bar> < 2 ^ 53 \<Longrightarrow> BigNumber_toNumber x = x"
  by (simp add: BigNumber_toNumber_def nearest_double_small mult_sgn_abs)

lemma BigNumber_new_2_57: "BigNumber_new 144115188075855872 = 144115188075855870"
  by code_simp

lemma BigNumber_new_0 [simp]: "BigNumber_new 0 = 0"
  by (rule BigNumber_new_safe) simp

lemma BigNumber_new_1 [simp]: "BigNumber_new 1 = 1"
  by (rule BigNumber_new_safe) simp

lemma numBonacci_loop_length:
  "length (numBonacci_loop k t n1 n2 arr) = length arr + k"
  by (induction k arbitrary: n1 n2 arr) (simp_all add: Let_def)

lemma numBonacci_loop_prefix:
  "i < length arr \<Longrightarrow> numBonacci_loop k t n1 n2 arr ! i = arr ! i"
  by (induction k arbitrary: n1 n2 arr) (simp_all add: Let_def nth_append)

lemma numBonacci_loop_step:
  "\<lbrakk>2 \<le> length arr; n1 = arr ! (length arr - 1); n2 = arr ! (length arr - 2);
    length arr \<le> i; i < length arr + k\<rbrakk>
   \<Longrightarrow> numBonacci_loop k t n1 n2 arr ! i
       = BigNumber_new t * numBonacci_loop k t n1 n2 arr ! (i - 1)
         + numBonacci_loop k t n1 n2 arr ! (i - 2)"
proof (induction k arbitrary: n1 n2 arr)
  case 0
  then show ?case by simp
next
  case (Suc k)
  let ?cur = "n1 * BigNumber_new t + n2"
  let ?arr = "arr @ [?cur]"
  let ?r = "numBonacci_loop k t ?cur n1 ?arr"
  have unfold: "numBonacci_loop (Suc k) t n1 n2 arr = ?r" by (simp add: Let_def)
  show ?case
  proof (cases "i = length arr")
    case True
    have a: "?r ! i = ?cur"
      using True numBonacci_loop_prefix [of i ?arr k t ?cur n1] by simp
    have i1: "i - 1 < length arr" and i2: "i - 2 < length arr"
      using True Suc.prems by simp_all
    have "?r ! (i - 1) = ?arr ! (i - 1)"
      by (rule numBonacci_loop_prefix) (use i1 in simp)
    also have "\<dots> = n1" using i1 True Suc.prems by (simp add: nth_append)
    finally have b: "?r ! (i - 1) = n1" .
    have "?r ! (i - 2) = ?arr ! (i - 2)"
      by (rule numBonacci_loop_prefix) (use i2 in simp)
    also have "\<dots> = n2" using i2 True Suc.prems by (simp add: nth_append)
    finally have c: "?r ! (i - 2) = n2" .
    show ?thesis unfolding unfold a b c by (simp add: mult.commute)
  next
    case False
    have "?r ! i = BigNumber_new t * ?r ! (i - 1) + ?r ! (i - 2)"
    proof (rule Suc.IH)
      show "2 \<le> length ?arr" using Suc.prems by simp
      show "?cur = ?arr ! (length ?arr - 1)" by simp
      show "n1 = ?arr ! (length ?arr - 2)"
      proof -
        have "length ?arr - 2 = length arr - 1" by simp
        moreover have "length arr - 1 < length arr" using Suc.prems(1) by simp
        ultimately have "?arr ! (length ?arr - 2) = arr ! (length arr - 1)"
          by (simp only: nth_append if_True)
        with Suc.prems(2) show ?thesis by simp
      qed
      show "length ?arr \<le> i" using False Suc.prems by simp
      show "i < length ?arr + k" using Suc.prems by simp
    qed
    then show ?thesis unfolding unfold .
  qed
qed

lemma numBonacci_short:
  "len \<le> 3 \<Longrightarrow> numBonacci len s1 s2 t = [BigNumber_new s1]"
  by (simp add: numBonacci_def slice_def Let_def max_def)

lemma numBonacci_long:
  "4 \<le> len \<Longrightarrow>
     numBonacci len s1 s2 t
       = numBonacci_loop (nat (len - 2)) t (BigNumber_new s2) (BigNumber_new s1)
           [BigNumber_new s1, BigNumber_new s2]"
  by (simp add: numBonacci_def Let_def max_def)

lemma numBonacci_length:
  "4 \<le> len \<Longrightarrow> length (numBonacci len s1 s2 t) = nat len"
  by (simp add: numBonacci_long numBonacci_loop_length)

lemma numBonacci_seeds:
  assumes "4 \<le> len"
  shows "numBonacci len s1 s2 t ! 0 = BigNumber_new s1"
    and "numBonacci len s1 s2 t ! 1 = BigNumber_new s2"
proof -
  have "numBonacci len s1 s2 t ! 0 = [BigNumber_new s1, BigNumber_new s2] ! 0"
    unfolding numBonacci_long [OF assms] by (rule numBonacci_loop_prefix) simp
  then show "numBonacci len s1 s2 t ! 0 = BigNumber_new s1" by simp
  have "numBonacci len s1 s2 t ! 1 = [BigNumber_new s1, BigNumber_new s2] ! 1"
    unfolding numBonacci_long [OF assms] by (rule numBonacci_loop_prefix) simp
  then show "numBonacci len s1 s2 t ! 1 = BigNumber_new s2" by simp
qed

lemma numBonacci_step:
  assumes "4 \<le> len" and "2 \<le> i" and "i < nat len"
  shows "numBonacci len s1 s2 t ! i
           = BigNumber_new t * numBonacci len s1 s2 t ! (i - 1) + numBonacci len s1 s2 t ! (i - 2)"
proof -
  have "i < length [BigNumber_new s1, BigNumber_new s2] + nat (len - 2)" using assms by simp
  with assms(2) show ?thesis
    unfolding numBonacci_long [OF assms(1)] by (intro numBonacci_loop_step) simp_all
qed

text \<open>The decimal string of a value reads back as that value.\<close>

lemma digit_value_all:
  "list_all (\<lambda>n. digit_value (''0123456789'' ! n) = n) [0 ..< 10]"
  by code_simp

lemma digit_value_nth: "n < 10 \<Longrightarrow> digit_value (''0123456789'' ! n) = n"
  using digit_value_all by (simp add: list_all_iff)

lemma decimal_value_digits: "decimal_value (digits 10 n) = n"
proof (induction n rule: less_induct)
  case (less n)
  show ?case
  proof (cases "n < 10")
    case True
    then show ?thesis
      by (simp add: digits.simps [of 10 n] decimal_value_def digit_value_nth)
  next
    case False
    have ih: "decimal_value (digits 10 (n div 10)) = n div 10"
      by (rule less.IH) (use False in simp)
    have "decimal_value (digits 10 n)
            = decimal_value (digits 10 (n div 10)) * 10 + digit_value (''0123456789'' ! (n mod 10))"
      using False by (simp add: digits.simps [of 10 n] decimal_value_def)
    also have "\<dots> = (n div 10) * 10 + n mod 10"
      by (simp add: ih digit_value_nth)
    finally show ?thesis by simp
  qed
qed

lemma toFixed_exact: "0 \<le> x \<Longrightarrow> int (decimal_value (toFixed x)) = x"
  by (simp add: toFixed_def toStringRadix_def decimal_value_digits)






text \<open>
  A seed above \<open>2^53\<close> is read through its printout: the number \<open>2^57\<close> enters the
  sequence as 144115188075855870.
\<close>

lemma numBonacci_seed_printed:
  "numBonacci 4 144115188075855872 0 1
     = [144115188075855870, 0, 144115188075855870, 144115188075855870]"
  by code_simp

text \<open>
  Past \<open>2^53\<close> the number output of \<open>nbonacci\<close> is rounded: the 80th Fibonacci
  number, 14472334024676221, comes out as 14472334024676220.
\<close>

lemma nbonacci_rounded:
  "last (numBonacci 80 0 1 1) = 14472334024676221
   \<and> last (nbonacci BigNumber_toNumber 80 0 1 1 False) = AsNumber 14472334024676220"
  by code_simp

lemma numBonacci_nth_fib:
  assumes "4 \<le> len"
  shows "i < nat len \<Longrightarrow> numBonacci len 0 1 1 ! i = fib_spec i"
proof (induction i rule: fib_spec.induct)
  case 1
  show ?case using numBonacci_seeds(1) [OF assms, of 0 1 1] by simp
next
  case 2
  show ?case using numBonacci_seeds(2) [OF assms, of 0 1 1] by simp
next
  case (3 n)
  have "numBonacci len 0 1 1 ! Suc (Suc n)
          = 1 * numBonacci len 0 1 1 ! (Suc (Suc n) - 1) + numBonacci len 0 1 1 ! (Suc (Suc n) - 2)"
    using numBonacci_step [OF assms _ "3.prems", of 0 1 1] by simp
  with 3 show ?case by simp
qed

lemma numBonacci_fib:
  assumes "4 \<le> len"
  shows "numBonacci len 0 1 1 = map fib_spec [0 ..< nat len]"
  by (rule nth_equalityI)
     (simp_all add: numBonacci_length [OF assms] numBonacci_nth_fib [OF assms])

lemma last_numBonacci_100: "last (numBonacci 100 0 1 1) = 218922995834555169026"
  by code_simp

lemma toFixed_fib_99: "toFixed 218922995834555169026 = ''218922995834555169026''"
  by (simp add: toFixed_def toStringRadix_def digits.simps)

text \<open>
  Claim C9. \<open>fibonacci(100, 0, true)\<close> returns the first 100 Fibonacci numbers
  \<open>F(0), ..., F(99)\<close> as decimal strings of their exact values; its last element is the
  digit string of \<open>F(99) = 218922995834555169026\<close>, a value above \<open>2^64\<close>.
\<close>

theorem fibonacci_100_exact:
  "fibonacci toNumber 100 0 True = map (\<lambda>n. AsString (toFixed (fib_spec n))) [0 ..< 100]
   \<and> length (fibonacci toNumber 100 0 True) = 100
   \<and> last (fibonacci toNumber 100 0 True) = AsString ''218922995834555169026''
   \<and> (2 :: int) ^ 64 < 218922995834555169026"
proof -
  have nb: "numBonacci 100 0 1 1 = map fib_spec [0 ..< 100]"
    using numBonacci_fib [of 100] by simp
  have f: "fibonacci toNumber 100 0 True = map (\<lambda>x. AsString (toFixed x)) (numBonacci 100 0 1 1)"
    by (simp add: fibonacci_def render_def)
  have ne: "numBonacci 100 0 1 1 \<noteq> []" by (simp add: nb)
  have l: "last (fibonacci toNumber 100 0 True) = AsString ''218922995834555169026''"
    unfolding f by (simp only: last_map [OF ne] last_numBonacci_100 toFixed_fib_99)
  have m: "fibonacci toNumber 100 0 True = map (\<lambda>n. AsString (toFixed (fib_spec n))) [0 ..< 100]"
    unfolding f nb by (simp add: comp_def)
  have n: "length (fibonacci toNumber 100 0 True) = 100" unfolding m by simp
  from l m n show ?thesis by simp
qed

text \<open>
  Claim C3, as amended. The period search returns \<open>[0,1,1,2,0,2,2,1]\<close> for modulus 3,
  and for the moduli 3, 4, 5 and 6 the length of the returned sequence is the Pisano
  period of OEIS A001175: 8, 6, 20 and 24.
\<close>

theorem pisanoPeriod_small_moduli:
  "pisanoPeriod 3 32 = Some [0, 1, 1, 2, 0, 2, 2, 1]
   \<and> map (\<lambda>m. map_option length (pisanoPeriod m 32)) [3, 4, 5, 6]
       = [Some 8, Some 6, Some 20, Some 24]"
  by code_simp

text \<open>Claim C3 as stated gives \<open>[0,1,1,2]\<close> for modulus 3; the code returns eight terms.\<close>

theorem pisanoPeriod_three_counterexample:
  "pisanoPeriod 3 32 \<noteq> Some [0, 1, 1, 2]"
  by code_simp

text \<open>
  For modulus 2 the restart \<open>[0,1,1]\<close> at index 3 is skipped by the guard \<open>l > 3\<close>, and
  the search returns two periods.
\<close>

lemma pisanoPeriod_two: "pisanoPeriod 2 32 = Some [0, 1, 1, 0, 1, 1]"
  by code_simp

text \<open>
  Claim C4 at the input \<open>pisano(2, 3)\<close>: the claim asks for the three terms
  \<open>[0,1,1]\<close>, the first three Fibonacci numbers modulo 2; the code returns the single
  term \<open>[0]\<close>, because \<open>numBonacci\<close> returns one element for the lengths 2 and 3.
\<close>

theorem pisano_length_three_one_term:
  "pisano 2 3 = Some [0] \<and> map (\<lambda>n. fib_spec n mod 2) [0 ..< 3] = [0, 1, 1]"
  by code_simp

text \<open>Outside the lengths 2 and 3 the fixed-length entry point does what C4 says.\<close>

lemma fib_spec_nonneg: "0 \<le> fib_spec n"
  by (induction n rule: fib_spec.induct) simp_all

lemma js_rem_nonneg: "0 \<le> a \<Longrightarrow> 0 < b \<Longrightarrow> js_rem a b = a mod b"
  by (cases "a = 0") (simp_all add: js_rem_def)

lemma pisano_term:
  assumes "2 \<le> m" and "m < 2 ^ 53" and "0 \<le> x"
  shows "BigNumber_toNumber (js_rem x (BigNumber_new m)) = x mod m"
proof -
  have m: "BigNumber_new m = m" using assms(1,2) by (intro BigNumber_new_safe) simp
  have "0 \<le> x mod m" and "x mod m < m" using assms(1) by simp_all
  then have "\<bar>x mod m\<bar> < 2 ^ 53" using assms(2) by linarith
  then have "BigNumber_toNumber (x mod m) = x mod m" by (rule BigNumber_toNumber_safe)
  then show ?thesis using assms by (simp add: m js_rem_nonneg)
qed

lemma pisano_fixed_length:
  assumes "2 \<le> m" and "m < 2 ^ 53" and "4 \<le> len"
  shows "pisano m len = Some (map (\<lambda>n. fib_spec n mod m) [0 ..< nat len])"
proof -
  have "map (\<lambda>x. BigNumber_toNumber (js_rem x (BigNumber_new m))) (map fib_spec [0 ..< nat len])
          = map (\<lambda>n. fib_spec n mod m) [0 ..< nat len]"
    using assms(1,2) by (simp add: pisano_term fib_spec_nonneg)
  then show ?thesis
    using assms by (simp add: pisano_def numBonacci_fib)
qed

lemma pisano_length_one: "2 \<le> m \<Longrightarrow> pisano m 1 = Some [0]"
  by (simp add: pisano_def numBonacci_short js_rem_def BigNumber_toNumber_def)

lemma pisano_degenerate: "m < 2 \<Longrightarrow> pisano m len = Some [0]"
  by (simp add: pisano_def)

section \<open>Properties of the Euclidean rhythms\<close>

text \<open>
  Claim C6. \<open>euclid(8,4,0)\<close> and \<open>fastEuclid(8,4,0)\<close> both return
  \<open>[1,0,1,0,1,0,1,0]\<close>.
\<close>

theorem euclid_8_4_reference:
  "euclid 8 4 0 = Some [1, 0, 1, 0, 1, 0, 1, 0] \<and> fastEuclid 8 4 0 = [1, 0, 1, 0, 1, 0, 1, 0]"
  by code_simp

lemma Transform_rotate_length [simp]: "length (Transform_rotate a r) = length a"
  by (simp add: Transform_rotate_def)

lemma Transform_rotate_nth:
  "i < length a \<Longrightarrow> Transform_rotate a r ! i = a ! nat ((int i - r) mod int (length a))"
  by (simp add: Transform_rotate_def)

lemma Transform_rotate_conv_rotate:
  "Transform_rotate a r = rotate (nat ((- r) mod int (length a))) a"
proof (rule nth_equalityI)
  show "length (Transform_rotate a r) = length (rotate (nat ((- r) mod int (length a))) a)"
    by simp
next
  fix i assume "i < length (Transform_rotate a r)"
  then have i: "i < length a" by simp
  let ?l = "int (length a)"
  have l: "0 < ?l" using i by (cases a) simp_all
  have nn: "0 \<le> (- r) mod ?l" using l by simp
  have "int ((nat ((- r) mod ?l) + i) mod length a) = ((- r) mod ?l + int i) mod ?l"
    using nn by (simp add: zmod_int)
  also have "\<dots> = (int i - r) mod ?l"
    by (simp add: mod_add_left_eq)
  finally have "(nat ((- r) mod ?l) + i) mod length a = nat ((int i - r) mod ?l)"
    by linarith
  then show "Transform_rotate a r ! i = rotate (nat ((- r) mod int (length a))) a ! i"
    using i by (simp add: Transform_rotate_nth nth_rotate)
qed

lemma mset_rotate_eq: "mset (rotate n xs) = mset xs"
proof -
  let ?k = "n mod length xs"
  have "mset xs = mset (take ?k xs @ drop ?k xs)" by simp
  also have "\<dots> = mset (drop ?k xs @ take ?k xs)"
    by (simp only: mset_append add.commute)
  finally show ?thesis by (simp add: rotate_drop_take)
qed

lemma mset_Transform_rotate: "mset (Transform_rotate a r) = mset a"
  by (simp add: Transform_rotate_conv_rotate mset_rotate_eq)

lemma Transform_rotate_add:
  "Transform_rotate (Transform_rotate a x) y = Transform_rotate a (x + y)"
proof (rule nth_equalityI)
  show "length (Transform_rotate (Transform_rotate a x) y) = length (Transform_rotate a (x + y))"
    by simp
next
  fix i assume "i < length (Transform_rotate (Transform_rotate a x) y)"
  then have i: "i < length a" by simp
  let ?l = "int (length a)"
  have l: "0 < ?l" using i by (cases a) simp_all
  let ?j = "nat ((int i - y) mod ?l)"
  have j: "?j < length a" using l by (simp add: nat_less_iff)
  have "(int ?j - x) mod ?l = ((int i - y) mod ?l - x) mod ?l" using l by simp
  also have "\<dots> = (int i - (x + y)) mod ?l"
    by (simp add: mod_diff_left_eq algebra_simps)
  finally have "(int ?j - x) mod ?l = (int i - (x + y)) mod ?l" .
  then show "Transform_rotate (Transform_rotate a x) y ! i = Transform_rotate a (x + y) ! i"
    using i j by (simp add: Transform_rotate_nth)
qed

text \<open>
  The ladder and the expansion. Before the iteration at a level, the pattern to come is
  \<open>divisor\<close> copies of the expansion of \<open>level - 1\<close> and \<open>remainders[level]\<close> copies of
  the expansion of \<open>level - 2\<close>; each iteration keeps that total, and the loop ends
  since the remainder decreases. The total is stated for any additive measure \<open>\<phi>\<close> of
  a pattern (its length, the number of its ones, the number of its zeros).
\<close>

lemma build_minus_one: "build c r (- 1) = Some [0]"
  by (simp add: build.simps)

lemma build_minus_two: "build c r (- 2) = Some [1]"
  by (simp add: build.simps)

lemma build_step:
  assumes "0 \<le> l" and "js_at c (nat l) = Some k" and "js_at r (nat l) = Some q"
    and "build c r (l - 1) = Some a" and "build c r (l - 2) = Some b"
  shows "build c r l = Some (concat (replicate (nat k) a) @ (if q \<noteq> 0 then b else []))"
  using assms by (simp add: build.simps [of c r l] Let_def)

lemma build_append:
  "l < int (length c) \<Longrightarrow> l < int (length r) \<Longrightarrow> build (c @ c') (r @ r') l = build c r l"
proof (induction "nat (l + 2)" arbitrary: l rule: less_induct)
  case less
  consider "l < - 2" | "l = - 2" | "l = - 1" | "0 \<le> l" by linarith
  then show ?case
  proof cases
    case 1
    then show ?thesis by (simp add: build.simps [of _ _ l])
  next
    case 2
    then show ?thesis by (simp add: build_minus_two)
  next
    case 3
    then show ?thesis by (simp add: build_minus_one)
  next
    case 4
    have ih1: "build (c @ c') (r @ r') (l - 1) = build c r (l - 1)"
      by (rule less.hyps) (use 4 less.prems in simp_all)
    have ih2: "build (c @ c') (r @ r') (l - 2) = build c r (l - 2)"
      by (rule less.hyps) (use 4 less.prems in simp_all)
    have "nat l < length c" and "nat l < length r"
      using 4 less.prems by linarith+
    then have c: "js_at (c @ c') (nat l) = js_at c (nat l)"
      and r: "js_at (r @ r') (nat l) = js_at r (nat l)"
      by (simp_all add: js_at_def nth_append)
    show ?thesis
      unfolding build.simps [of "c @ c'" "r @ r'" l] build.simps [of c r l] ih1 ih2 c r
      by (rule refl)
  qed
qed

lemma additive_concat_replicate:
  fixes \<phi> :: "int list \<Rightarrow> int"
  assumes add: "\<And>xs ys. \<phi> (xs @ ys) = \<phi> xs + \<phi> ys"
  shows "\<phi> (concat (replicate n xs)) = int n * \<phi> xs"
proof (induction n)
  case 0
  have "\<phi> ([] @ []) = \<phi> [] + \<phi> []" by (rule add)
  then show ?case by simp
next
  case (Suc n)
  then show ?case by (simp add: add algebra_simps)
qed

lemma ladder_arith:
  fixes q k x y m :: int
  shows "q * (k * x + y) + m * x = (q * k + m) * x + q * y"
  by (simp add: algebra_simps)

lemma euclid_loop_exit:
  "js_at rs level = Some q \<Longrightarrow> q \<le> 1 \<Longrightarrow> euclid_loop d cs rs level = Some (d, cs, rs, level)"
  by (simp add: euclid_loop.simps [of d cs rs level])

lemma euclid_loop_iter:
  "js_at rs level = Some q \<Longrightarrow> 1 < q \<Longrightarrow>
   euclid_loop d cs rs level
     = euclid_loop q (cs @ [d div q]) (rs @ [js_rem d q]) (level + 1)"
  by (simp add: euclid_loop.simps [of d cs rs level])

lemma euclid_loop_build:
  fixes \<phi> :: "int list \<Rightarrow> int"
  assumes add: "\<And>xs ys. \<phi> (xs @ ys) = \<phi> xs + \<phi> ys"
  shows "\<lbrakk>length rs = Suc level; length cs = level; 0 \<le> d; 0 \<le> rs ! level;
          build cs rs (int level - 1) = Some a; build cs rs (int level - 2) = Some b\<rbrakk>
     \<Longrightarrow> \<exists>d' cs' rs' L p. euclid_loop d cs rs level = Some (d', cs', rs', L)
            \<and> build (cs' @ [d']) rs' (int L) = Some p
            \<and> \<phi> p = d * \<phi> a + rs ! level * \<phi> b"
proof (induction "nat (rs ! level)" arbitrary: d cs rs level a b rule: less_induct)
  case less
  let ?q = "rs ! level"
  have at_rs: "js_at rs level = Some ?q" using less.prems(1) by (simp add: js_at_def)
  show ?case
  proof (cases "1 < ?q")
    case False
    then have q01: "?q = 0 \<or> ?q = 1" using less.prems(4) by linarith
    have exit: "euclid_loop d cs rs level = Some (d, cs, rs, level)"
    proof (rule euclid_loop_exit [OF at_rs])
      show "?q \<le> 1" using False by linarith
    qed
    have a': "build (cs @ [d]) rs (int level - 1) = Some a"
      using build_append [of "int level - 1" cs rs "[d]" "[]"] less.prems by simp
    have b': "build (cs @ [d]) rs (int level - 2) = Some b"
      using build_append [of "int level - 2" cs rs "[d]" "[]"] less.prems by simp
    have at_cs: "js_at (cs @ [d]) (nat (int level)) = Some d"
      using less.prems(2) by (simp add: js_at_def nth_append)
    have at_rs': "js_at rs (nat (int level)) = Some ?q" using at_rs by simp
    have p: "build (cs @ [d]) rs (int level)
               = Some (concat (replicate (nat d) a) @ (if ?q \<noteq> 0 then b else []))"
      by (rule build_step [OF _ at_cs at_rs' a' b']) simp
    have "\<phi> (concat (replicate (nat d) a) @ (if ?q \<noteq> 0 then b else [])) = d * \<phi> a + ?q * \<phi> b"
      using q01 less.prems(3) additive_concat_replicate [of \<phi> 0 a, OF add]
      by (auto simp: add additive_concat_replicate [of \<phi>, OF add])
    with exit p show ?thesis by blast
  next
    case True
    let ?cs = "cs @ [d div ?q]"
    let ?rs = "rs @ [js_rem d ?q]"
    have rem: "js_rem d ?q = d mod ?q"
      using less.prems(3) True by (cases "d = 0") (simp_all add: js_rem_def)
    have iter: "euclid_loop d cs rs level = euclid_loop ?q ?cs ?rs (level + 1)"
      using at_rs True by (rule euclid_loop_iter)
    have a': "build ?cs ?rs (int level - 1) = Some a"
      using build_append [of "int level - 1" cs rs "[d div ?q]" "[js_rem d ?q]"] less.prems by simp
    have b': "build ?cs ?rs (int level - 2) = Some b"
      using build_append [of "int level - 2" cs rs "[d div ?q]" "[js_rem d ?q]"] less.prems by simp
    have at_cs: "js_at ?cs (nat (int level)) = Some (d div ?q)"
      using less.prems(2) by (simp add: js_at_def nth_append)
    have at_rs': "js_at ?rs (nat (int level)) = Some ?q"
      using less.prems(1) by (simp add: js_at_def nth_append)
    have na: "build ?cs ?rs (int level) = Some (concat (replicate (nat (d div ?q)) a) @ b)"
      using build_step [OF _ at_cs at_rs' a' b'] True by simp
    let ?a = "concat (replicate (nat (d div ?q)) a) @ b"
    have new: "?rs ! (level + 1) = d mod ?q"
      using less.prems(1) by (simp add: nth_append rem)
    have "\<exists>d' cs' rs' L p. euclid_loop ?q ?cs ?rs (level + 1) = Some (d', cs', rs', L)
            \<and> build (cs' @ [d']) rs' (int L) = Some p
            \<and> \<phi> p = ?q * \<phi> ?a + ?rs ! (level + 1) * \<phi> a"
    proof (rule less.hyps)
      show "nat (?rs ! (level + 1)) < nat (rs ! level)"
        unfolding new using True by (simp add: nat_less_iff)
      show "length ?rs = Suc (level + 1)" using less.prems(1) by simp
      show "length ?cs = level + 1" using less.prems(2) by simp
      show "0 \<le> ?q" using True by simp
      show "0 \<le> ?rs ! (level + 1)" unfolding new using True by simp
      show "build ?cs ?rs (int (level + 1) - 1) = Some ?a" using na by simp
      show "build ?cs ?rs (int (level + 1) - 2) = Some a" using a' by simp
    qed
    then obtain d' cs' rs' L p where
      res: "euclid_loop ?q ?cs ?rs (level + 1) = Some (d', cs', rs', L)"
        "build (cs' @ [d']) rs' (int L) = Some p"
        "\<phi> p = ?q * \<phi> ?a + ?rs ! (level + 1) * \<phi> a"
      by blast
    have dq: "0 \<le> d div ?q" using less.prems(3) True by (simp add: pos_imp_zdiv_nonneg_iff)
    have "\<phi> ?a = (d div ?q) * \<phi> a + \<phi> b"
      using dq by (simp add: add additive_concat_replicate [of \<phi>, OF add])
    then have "\<phi> p = ?q * ((d div ?q) * \<phi> a + \<phi> b) + (d mod ?q) * \<phi> a"
      using res(3) new by simp
    also have "\<dots> = (?q * (d div ?q) + d mod ?q) * \<phi> a + ?q * \<phi> b"
      by (rule ladder_arith)
    also have "?q * (d div ?q) + d mod ?q = d"
      by (rule mult_div_mod_eq)
    finally have "\<phi> p = d * \<phi> a + ?q * \<phi> b" .
    with res(1,2) iter show ?thesis by auto
  qed
qed

lemma euclid_pattern:
  fixes \<phi> :: "int list \<Rightarrow> int"
  assumes add: "\<And>xs ys. \<phi> (xs @ ys) = \<phi> xs + \<phi> ys"
    and "0 \<le> beats" and "beats \<le> steps"
  shows "\<exists>d cs rs L p. euclid_loop (steps - beats) [] [beats] 0 = Some (d, cs, rs, L)
            \<and> build (cs @ [d]) rs (int L) = Some p
            \<and> \<phi> p = (steps - beats) * \<phi> [0] + beats * \<phi> [1]"
  using euclid_loop_build [of \<phi> "[beats]" 0 "[]" "steps - beats" "[0]" "[1]", OF add] assms(2,3)
  by (simp add: build_minus_one build_minus_two)


lemma euclid_value:
  assumes "0 \<le> beats" and "beats \<le> steps"
  shows "\<exists>p. (\<forall>rot. euclid steps beats rot = Some (Transform_rotate p (rot - indexOf p 1)))
           \<and> int (length p) = steps
           \<and> int (count_list p 1) = beats
           \<and> int (count_list p 0) = steps - beats"
proof -
  have "\<exists>d cs rs L p. euclid_loop (steps - beats) [] [beats] 0 = Some (d, cs, rs, L)
            \<and> build (cs @ [d]) rs (int L) = Some p
            \<and> int (length p) = (steps - beats) * int (length [0::int]) + beats * int (length [1::int])"
    by (rule euclid_pattern [of "\<lambda>xs. int (length xs)", OF _ assms]) simp
  then obtain d cs rs L p where
    loop: "euclid_loop (steps - beats) [] [beats] 0 = Some (d, cs, rs, L)"
    and pat: "build (cs @ [d]) rs (int L) = Some p"
    and len: "int (length p) = steps" by auto
  have "\<exists>d cs rs L p. euclid_loop (steps - beats) [] [beats] 0 = Some (d, cs, rs, L)
            \<and> build (cs @ [d]) rs (int L) = Some p
            \<and> int (count_list p 1) = (steps - beats) * int (count_list [0::int] 1) + beats * int (count_list [1::int] 1)"
    by (rule euclid_pattern [of "\<lambda>xs. int (count_list xs 1)", OF _ assms]) simp
  with loop pat have ones: "int (count_list p 1) = beats" by auto
  have "\<exists>d cs rs L p. euclid_loop (steps - beats) [] [beats] 0 = Some (d, cs, rs, L)
            \<and> build (cs @ [d]) rs (int L) = Some p
            \<and> int (count_list p 0) = (steps - beats) * int (count_list [0::int] 0) + beats * int (count_list [1::int] 0)"
    by (rule euclid_pattern [of "\<lambda>xs. int (count_list xs 0)", OF _ assms]) simp
  with loop pat have zeros: "int (count_list p 0) = steps - beats" by auto
  have "\<forall>rot. euclid steps beats rot = Some (Transform_rotate p (rot - indexOf p 1))"
    by (simp add: euclid_def loop pat)
  with len ones zeros show ?thesis by blast
qed

lemma count_list_Transform_rotate:
  "count_list (Transform_rotate a r) v = count_list a v"
  using mset_Transform_rotate [of a r] by (metis count_mset)

text \<open>
  Claim C2. For steps \<open>s \<ge> 1\<close> and \<open>0 \<le> beats \<le> s\<close>, \<open>euclid(s, beats, 0)\<close> returns
  a sequence of length \<open>s\<close> with exactly \<open>beats\<close> ones and exactly \<open>s - beats\<close> zeros.
\<close>

theorem euclid_beats_count:
  assumes "1 \<le> s" and "0 \<le> beats" and "beats \<le> s"
  shows "\<exists>p. euclid s beats 0 = Some p
           \<and> int (length p) = s
           \<and> int (count_list p 1) = beats
           \<and> int (count_list p 0) = s - beats"
proof -
  from euclid_value [OF assms(2,3)] obtain p where
    p: "\<forall>rot. euclid s beats rot = Some (Transform_rotate p (rot - indexOf p 1))"
       "int (length p) = s" "int (count_list p 1) = beats" "int (count_list p 0) = s - beats"
    by blast
  from p(1) have "euclid s beats 0 = Some (Transform_rotate p (0 - indexOf p 1))" by blast
  with p(2,3,4) show ?thesis by (simp add: count_list_Transform_rotate)
qed

text \<open>The theorem at 8 steps and 3 beats.\<close>

theorem euclid_beats_count_witness:
  "(1::int) \<le> 8 \<and> (0::int) \<le> 3 \<and> (3::int) \<le> 8
   \<and> euclid 8 3 0 = Some [1, 0, 0, 1, 0, 0, 1, 0]
   \<and> (\<exists>p. euclid 8 3 0 = Some p \<and> int (length p) = 8
           \<and> int (count_list p 1) = 3 \<and> int (count_list p 0) = 8 - 3)"
proof -
  have a: "(1::int) \<le> 8" and b: "(0::int) \<le> 3" and c: "(3::int) \<le> 8" by simp_all
  have v: "euclid 8 3 0 = Some [1, 0, 0, 1, 0, 0, 1, 0]" by code_simp
  note ex = euclid_beats_count [OF a b c]
  from a b c v ex show ?thesis by blast
qed

text \<open>
  Claim C7. For steps \<open>s \<ge> 1\<close>, \<open>0 \<le> b \<le> s\<close> and any integer rotation \<open>r\<close>, the
  values of \<open>euclid(s, b, r)\<close> are, as a multiset, those of \<open>euclid(s, b, 0)\<close>, and the
  rotated pattern is a cyclic rotation of the unrotated one.
\<close>

theorem euclid_rotation_multiset:
  assumes "1 \<le> s" and "0 \<le> b" and "b \<le> s"
  shows "\<exists>p q. euclid s b r = Some p \<and> euclid s b 0 = Some q
           \<and> mset p = mset q
           \<and> p = rotate (nat ((- r) mod int (length q))) q"
proof -
  from euclid_value [OF assms(2,3)] obtain pat where
    pat: "\<forall>rot. euclid s b rot = Some (Transform_rotate pat (rot - indexOf pat 1))"
    by blast
  let ?q = "Transform_rotate pat (0 - indexOf pat 1)"
  let ?p = "Transform_rotate pat (r - indexOf pat 1)"
  have q: "euclid s b 0 = Some ?q" and p: "euclid s b r = Some ?p"
    using pat by blast+
  have "?p = Transform_rotate ?q r"
    by (simp add: Transform_rotate_add)
  then have rot: "?p = rotate (nat ((- r) mod int (length ?q))) ?q"
    by (simp only: Transform_rotate_conv_rotate [of ?q r])
  have "mset ?p = mset ?q" by (simp add: mset_Transform_rotate)
  with p q rot show ?thesis by blast
qed

text \<open>The theorem at 8 steps, 3 beats and rotation 2.\<close>

theorem euclid_rotation_multiset_witness:
  "(1::int) \<le> 8 \<and> (0::int) \<le> 3 \<and> (3::int) \<le> 8
   \<and> euclid 8 3 2 = Some [1, 0, 1, 0, 0, 1, 0, 0]
   \<and> euclid 8 3 0 = Some [1, 0, 0, 1, 0, 0, 1, 0]
   \<and> (\<exists>p q. euclid 8 3 2 = Some p \<and> euclid 8 3 0 = Some q \<and> mset p = mset q
           \<and> p = rotate (nat ((- 2) mod int (length q))) q)"
proof -
  have a: "(1::int) \<le> 8" and b: "(0::int) \<le> 3" and c: "(3::int) \<le> 8" by simp_all
  have v: "euclid 8 3 2 = Some [1, 0, 1, 0, 0, 1, 0, 0]"
          "euclid 8 3 0 = Some [1, 0, 0, 1, 0, 0, 1, 0]" by code_simp+
  note ex = euclid_rotation_multiset [OF a b c, of 2]
  from a b c v ex show ?thesis by blast
qed

section \<open>Properties of the cellular automaton\<close>

lemma upt_8: "[0 ..< 8] = [0, 1, 2, 3, 4, 5, 6, 7 :: nat]"
  by code_simp

lemma neighborhood_keys:
  "map (\<lambda>i. padStart 3 (toStringRadix 2 (7 - int i))) [0, 1, 2, 3, 4, 5, 6, 7]
     = [''111'', ''110'', ''101'', ''100'', ''011'', ''010'', ''001'', ''000'']"
  by code_simp

lemma binaryToTable_explicit:
  "binaryToTable r =
     [''111'' \<mapsto> Number_at r 0, ''110'' \<mapsto> Number_at r 1, ''101'' \<mapsto> Number_at r 2,
      ''100'' \<mapsto> Number_at r 3, ''011'' \<mapsto> Number_at r 4, ''010'' \<mapsto> Number_at r 5,
      ''001'' \<mapsto> Number_at r 6, ''000'' \<mapsto> Number_at r 7]"
  using neighborhood_keys by (simp add: binaryToTable_def upt_8)

lemma dom_binaryToTable: "dom (binaryToTable r) = neighborhoods"
  unfolding binaryToTable_explicit neighborhoods_def by auto

lemma card_neighborhoods: "card neighborhoods = 8"
  by (simp add: neighborhoods_def)

lemma binaryToTable_values:
  "binaryToTable r ''111'' = Some (Number_at r 0)"
  "binaryToTable r ''110'' = Some (Number_at r 1)"
  "binaryToTable r ''101'' = Some (Number_at r 2)"
  "binaryToTable r ''100'' = Some (Number_at r 3)"
  "binaryToTable r ''011'' = Some (Number_at r 4)"
  "binaryToTable r ''010'' = Some (Number_at r 5)"
  "binaryToTable r ''001'' = Some (Number_at r 6)"
  "binaryToTable r ''000'' = Some (Number_at r 7)"
  by (simp_all add: binaryToTable_explicit)

lemma Number_at_bit:
  assumes "i < length r" and "set r \<subseteq> {CHR ''0'', CHR ''1''}"
  shows "Number_at r i = Num 0 \<or> Number_at r i = Num 1"
proof -
  have "r ! i \<in> set r" using assms(1) by simp
  with assms(2) have "r ! i = CHR ''0'' \<or> r ! i = CHR ''1''" by blast
  then show ?thesis using assms(1) by (auto simp: Number_at_def js_at_def Number_char_def)
qed

lemma binaryToTable_bits:
  assumes "8 \<le> length r" and "set (take 8 r) \<subseteq> {CHR ''0'', CHR ''1''}"
  shows "\<forall>k \<in> neighborhoods. binaryToTable r k = Some (Num 0) \<or> binaryToTable r k = Some (Num 1)"
proof -
  have bit: "Number_at r i = Num 0 \<or> Number_at r i = Num 1" if "i < 8" for i
  proof -
    have "Number_at r i = Number_at (take 8 r) i"
      using that assms(1) by (simp add: Number_at_def js_at_def)
    moreover have "Number_at (take 8 r) i = Num 0 \<or> Number_at (take 8 r) i = Num 1"
      by (rule Number_at_bit) (use that assms in simp_all)
    ultimately show ?thesis by simp
  qed
  show ?thesis
    unfolding neighborhoods_def
    using bit [of 0] bit [of 1] bit [of 2] bit [of 3] bit [of 4] bit [of 5] bit [of 6] bit [of 7]
    by (simp add: binaryToTable_values)
qed

lemma digits_binary: "set (digits 2 n) \<subseteq> {CHR ''0'', CHR ''1''}"
proof (induction n rule: less_induct)
  case (less n)
  show ?case
  proof (cases "n < 2")
    case True
    then have "n = 0 \<or> n = 1" by linarith
    then show ?thesis by (auto simp: digits.simps [of 2 n])
  next
    case False
    have "n mod 2 = 0 \<or> n mod 2 = 1" by linarith
    then have "''0123456789'' ! (n mod 2) \<in> {CHR ''0'', CHR ''1''}" by auto
    moreover have "set (digits 2 (n div 2)) \<subseteq> {CHR ''0'', CHR ''1''}"
      by (rule less.IH) (use False in simp)
    ultimately show ?thesis using False by (simp add: digits.simps [of 2 n])
  qed
qed

lemma padStart_length: "n \<le> length (padStart n s)"
  by (simp add: padStart_def)

lemma padStart_binary:
  "set s \<subseteq> {CHR ''0'', CHR ''1''} \<Longrightarrow> set (padStart n s) \<subseteq> {CHR ''0'', CHR ''1''}"
  by (auto simp: padStart_def)

lemma ruleToBinary_bits:
  assumes "0 \<le> n"
  shows "8 \<le> length (ruleToBinary (Integer n))"
    and "set (take 8 (ruleToBinary (Integer n))) \<subseteq> {CHR ''0'', CHR ''1''}"
proof -
  show "8 \<le> length (ruleToBinary (Integer n))" by (simp add: ruleToBinary_def padStart_length)
  have "set (ruleToBinary (Integer n)) \<subseteq> {CHR ''0'', CHR ''1''}"
    unfolding ruleToBinary_def using assms
    by (intro padStart_binary) (simp add: toStringRadix_def digits_binary)
  then show "set (take 8 (ruleToBinary (Integer n))) \<subseteq> {CHR ''0'', CHR ''1''}"
    using set_take_subset [of 8 "ruleToBinary (Integer n)"] by blast
qed

lemma toStringRadix_bit: "toStringRadix 10 0 = ''0''" "toStringRadix 10 1 = ''1''"
  by (simp_all add: toStringRadix_def digits.simps)

lemma join_bits:
  "set a \<subseteq> {Num 0, Num 1} \<Longrightarrow> set (join a) \<subseteq> {CHR ''0'', CHR ''1''}"
  by (induction a) (auto simp: join_def toStringRadix_bit)

lemma array_rule_bits:
  assumes "set a \<subseteq> {Num 0, Num 1}"
  shows "8 \<le> length (padStart 8 (join (slice 0 8 a)))"
    and "set (take 8 (padStart 8 (join (slice 0 8 a)))) \<subseteq> {CHR ''0'', CHR ''1''}"
proof -
  show "8 \<le> length (padStart 8 (join (slice 0 8 a)))" by (rule padStart_length)
  have "set (slice 0 8 a) \<subseteq> {Num 0, Num 1}"
    using assms set_take_subset [of 8 a] by (auto simp: slice_def)
  then have "set (padStart 8 (join (slice 0 8 a))) \<subseteq> {CHR ''0'', CHR ''1''}"
    by (intro padStart_binary join_bits)
  then show "set (take 8 (padStart 8 (join (slice 0 8 a)))) \<subseteq> {CHR ''0'', CHR ''1''}"
    using set_take_subset [of 8 "padStart 8 (join (slice 0 8 a))"] by blast
qed

text \<open>The branches of \<open>rule\<close>, by the tests that lead to them.\<close>

lemma rule_array:
  "rule (JSArray xs) this =
     Inr (if length xs \<noteq> 8 then [WarnRuleLength] else [],
          this\<lparr>au_table := binaryToTable (padStart 8 (join (slice 0 8 xs)))\<rparr>)"
  by (simp add: rule_def Let_def)

lemma rule_object:
  "rule (JSObject kind ps) this =
     Inr (if length (remdups (map fst ps)) \<noteq> 8 then [WarnRuleKeys] else [],
          this\<lparr>au_rule := RuleUndefined, au_table := map_of ps\<rparr>)"
  by (simp add: rule_def Let_def)

lemma rule_null: "rule JSNull this = Inl TypeError"
  by (simp add: rule_def)

lemma rule_number:
  assumes "\<not> isArray a" and "typeof a \<noteq> TypeObject" and "js_Number a = Inr n"
  shows "rule a this =
           (if isNaN n then Inr ([ErrorExpectedNumber], this)
            else Inr ([], this\<lparr>au_rule := RuleValue a,
                               au_table := binaryToTable (ruleToBinary n)\<rparr>))"
  using assms by (simp add: rule_def Let_def)

lemma rule_throws:
  assumes "\<not> isArray a" and "typeof a \<noteq> TypeObject" and "js_Number a = Inl e"
  shows "rule a this = Inl e"
  using assms by (simp add: rule_def)

text \<open>
  Claim C5, as amended. After \<open>rule\<close> with a non-negative integer number (or any other
  value that is no array and no object and that \<open>Number()\<close> reads as one), or with an
  array whose elements are the bits 0 and 1 (of any length), the rule table has exactly
  8 entries, one for each 3-bit neighbourhood string from \<open>000\<close> to \<open>111\<close>, each
  mapped to a single bit. After \<open>rule\<close> with an object mapping, the table is a copy of
  that mapping: its entries are the keys of the argument, whatever their number.
\<close>

theorem rule_table_entries:
  "((\<not> isArray arg \<and> typeof arg \<noteq> TypeObject \<and> js_Number arg = Inr (Integer n) \<and> 0 \<le> n)
      \<or> (arg = JSArray a \<and> set a \<subseteq> {Num 0, Num 1}) \<longrightarrow>
      (\<exists>diags this'. rule arg this = Inr (diags, this')
         \<and> dom (au_table this') = neighborhoods \<and> card (dom (au_table this')) = 8
         \<and> (\<forall>k \<in> neighborhoods. au_table this' k = Some (Num 0) \<or> au_table this' k = Some (Num 1))))
   \<and> (\<exists>diags this'. rule (JSObject kind kvs) this = Inr (diags, this')
         \<and> au_table this' = map_of kvs \<and> dom (au_table this') = set (map fst kvs))"
proof (intro conjI impI)
  assume "(\<not> isArray arg \<and> typeof arg \<noteq> TypeObject \<and> js_Number arg = Inr (Integer n) \<and> 0 \<le> n)
      \<or> (arg = JSArray a \<and> set a \<subseteq> {Num 0, Num 1})"
  then show "\<exists>diags this'. rule arg this = Inr (diags, this')
         \<and> dom (au_table this') = neighborhoods \<and> card (dom (au_table this')) = 8
         \<and> (\<forall>k \<in> neighborhoods. au_table this' k = Some (Num 0) \<or> au_table this' k = Some (Num 1))"
  proof
    assume h: "\<not> isArray arg \<and> typeof arg \<noteq> TypeObject \<and> js_Number arg = Inr (Integer n) \<and> 0 \<le> n"
    then have n: "0 \<le> n" by blast
    have bits: "\<forall>k \<in> neighborhoods. binaryToTable (ruleToBinary (Integer n)) k = Some (Num 0)
                 \<or> binaryToTable (ruleToBinary (Integer n)) k = Some (Num 1)"
      by (intro binaryToTable_bits ruleToBinary_bits n)
    from h have "rule arg this =
        Inr ([], this\<lparr>au_rule := RuleValue arg,
                       au_table := binaryToTable (ruleToBinary (Integer n))\<rparr>)"
      by (simp add: rule_number isNaN_def)
    with bits show ?thesis
      by (simp add: dom_binaryToTable card_neighborhoods)
  next
    assume h: "arg = JSArray a \<and> set a \<subseteq> {Num 0, Num 1}"
    then have a: "set a \<subseteq> {Num 0, Num 1}" by blast
    have "\<forall>k \<in> neighborhoods. binaryToTable (padStart 8 (join (slice 0 8 a))) k = Some (Num 0)
                 \<or> binaryToTable (padStart 8 (join (slice 0 8 a))) k = Some (Num 1)"
      by (intro binaryToTable_bits array_rule_bits a)
    with h show ?thesis
      by (simp add: rule_array dom_binaryToTable card_neighborhoods)
  qed
next
  show "\<exists>diags this'. rule (JSObject kind kvs) this = Inr (diags, this')
         \<and> au_table this' = map_of kvs \<and> dom (au_table this') = set (map fst kvs)"
    by (simp add: rule_object dom_map_of_conv_image_fst)
qed

text \<open>The theorem at rule number 30 and at the array \<open>[1,0,1]\<close>.\<close>

theorem rule_table_entries_witness:
  "(\<exists>diags this'. rule (JSNumber (Integer 30)) (Automaton 8 110) = Inr (diags, this')
         \<and> dom (au_table this') = neighborhoods \<and> card (dom (au_table this')) = 8
         \<and> (\<forall>k \<in> neighborhoods. au_table this' k = Some (Num 0) \<or> au_table this' k = Some (Num 1)))
   \<and> (\<exists>diags this'. rule (JSArray [Num 1, Num 0, Num 1]) (Automaton 8 110) = Inr (diags, this')
         \<and> dom (au_table this') = neighborhoods \<and> card (dom (au_table this')) = 8
         \<and> (\<forall>k \<in> neighborhoods. au_table this' k = Some (Num 0) \<or> au_table this' k = Some (Num 1)))"
  using rule_table_entries [where arg = "JSNumber (Integer 30)" and n = 30 and a = "[]"
          and this = "Automaton 8 110" and kind = PlainObject and kvs = "[]"]
        rule_table_entries [where arg = "JSArray [Num 1, Num 0, Num 1]" and n = 0
          and a = "[Num 1, Num 0, Num 1]" and this = "Automaton 8 110" and kind = PlainObject
          and kvs = "[]"]
  by (simp add: card_neighborhoods)

text \<open>
  Claim C5 as stated counts an object mapping among the arguments after which the table
  has 8 entries: after \<open>rule({"000": 1})\<close> the table has the one entry \<open>000\<close>.
\<close>

theorem rule_partial_object_counterexample:
  "dom (au_table (perform (Automaton 8 110)
          (CallRule (JSObject PlainObject [(''000'', Num 1)])))) = {''000''}
   \<and> card (dom (au_table (perform (Automaton 8 110)
          (CallRule (JSObject PlainObject [(''000'', Num 1)]))))) \<noteq> 8"
  by (simp add: rule_object)

text \<open>
  Claim C8, as amended. \<open>rule\<close> with an argument that is not an array, whose type is
  not \<open>object\<close> and that \<open>Number()\<close> reads as \<open>NaN\<close> reports an error
  (\<open>console.error\<close>) and changes nothing: the rule table, and the whole automaton, stay
  as they were. These arguments are \<open>undefined\<close>, a function, \<open>NaN\<close> and the strings
  that are no numeric literal. With a Symbol the call throws a TypeError, and the
  automaton is unchanged as well.
\<close>

theorem rule_not_numeric:
  "(\<not> isArray a \<and> typeof a \<noteq> TypeObject \<and> js_Number a = Inr NotANumber \<longrightarrow>
      rule a this = Inr ([ErrorExpectedNumber], this) \<and> perform this (CallRule a) = this)
   \<and> (\<not> isArray a \<and> typeof a \<noteq> TypeObject \<and> js_Number a = Inr NotANumber \<longleftrightarrow>
        a = JSUndefined \<or> a = JSFunction \<or> a = JSNumber NotANumber
        \<or> (\<exists>s. a = JSString s NotANumber))
   \<and> rule JSSymbol this = Inl TypeError \<and> perform this (CallRule JSSymbol) = this"
proof (intro conjI impI)
  assume h: "\<not> isArray a \<and> typeof a \<noteq> TypeObject \<and> js_Number a = Inr NotANumber"
  then show r: "rule a this = Inr ([ErrorExpectedNumber], this)"
    by (simp add: rule_number isNaN_def)
  then show "perform this (CallRule a) = this" by simp
next
  show "(\<not> isArray a \<and> typeof a \<noteq> TypeObject \<and> js_Number a = Inr NotANumber) \<longleftrightarrow>
        (a = JSUndefined \<or> a = JSFunction \<or> a = JSNumber NotANumber
         \<or> (\<exists>s. a = JSString s NotANumber))"
    by (cases a) simp_all
next
  show s: "rule JSSymbol this = Inl TypeError" by (simp add: rule_throws)
  then show "perform this (CallRule JSSymbol) = this" by simp
qed

text \<open>The theorem at \<open>rule(undefined)\<close> and at \<open>rule('abc')\<close> on a new automaton.\<close>

theorem rule_not_numeric_witness:
  "rule JSUndefined (Automaton 8 110) = Inr ([ErrorExpectedNumber], Automaton 8 110)
   \<and> perform (Automaton 8 110) (CallRule JSUndefined) = Automaton 8 110
   \<and> rule (JSString ''abc'' NotANumber) (Automaton 8 110)
       = Inr ([ErrorExpectedNumber], Automaton 8 110)"
  using rule_not_numeric [of JSUndefined "Automaton 8 110"]
        rule_not_numeric [of "JSString ''abc'' NotANumber" "Automaton 8 110"]
  by simp

text \<open>
  Claim C8 as stated covers every argument that is no number, no array, no object
  mapping and not numeric-coercible. A RegExp is one (\<open>Number(/x/)\<close> is \<open>NaN\<close>), an
  object of type \<open>object\<close> without own enumerable properties: \<open>rule(/x/)\<close> prints the
  key-count warning only and replaces the table by the empty one.
\<close>

theorem rule_other_object_counterexample:
  "diagnostics (rule (JSObject OtherObject []) (Automaton 8 110)) = [WarnRuleKeys]
   \<and> au_table (perform (Automaton 8 110) (CallRule (JSObject OtherObject []))) ''000'' = None
   \<and> au_table (Automaton 8 110) ''000'' = Some (Num 0)"
  by (simp add: rule_object diagnostics_def Automaton_def Let_def binaryToTable_values
        ruleToBinary_def padStart_def toStringRadix_def digits.simps Number_at_def js_at_def
        Number_char_def)

lemma rule_keeps_state:
  "rule arg this = Inr (diags, this') \<Longrightarrow>
     au_state this' = au_state this \<and> au_length this' = au_length this"
  by (auto simp: rule_def Let_def split: if_splits sum.splits)

lemma Automaton_ok: "state_ok (Automaton l r)"
  by (simp add: state_ok_def Automaton_def Let_def)

lemma next_length: "length (fst (automaton_next this)) = nat (au_length this)"
  by (simp add: automaton_next_def Let_def)

lemma perform_ok: "state_ok this \<Longrightarrow> state_ok (perform this c)"
proof (cases c)
  case (CallRule arg)
  assume ok: "state_ok this"
  show ?thesis
  proof (cases "rule arg this")
    case (Inl e)
    with CallRule ok show ?thesis by simp
  next
    case (Inr res)
    obtain diags this' where res: "res = (diags, this')" by (cases res)
    from rule_keeps_state [of arg this diags this'] Inr res CallRule ok
    show ?thesis by (simp add: state_ok_def)
  qed
next
  case (CallFeed arg)
  assume ok: "state_ok this"
  then show ?thesis using CallFeed by (auto simp: state_ok_def feed_def)
next
  case CallNext
  assume ok: "state_ok this"
  then show ?thesis using CallNext by (auto simp: state_ok_def automaton_next_def Let_def)
qed

lemma run_ok: "state_ok this \<Longrightarrow> state_ok (run this calls)"
  unfolding run_def by (induction calls arbitrary: this) (simp_all add: perform_ok)

text \<open>
  Claim C10. After construction and any sequence of \<open>rule\<close>, \<open>feed\<close> and \<open>next\<close>
  calls, the state has the length held in the length field, which is at least 3; a
  further \<open>next\<close> returns and stores a state of the same length; and \<open>feed\<close> with a
  non-array or with an array shorter than 3 warns and leaves the automaton, state and
  length included, unchanged.
\<close>

theorem automaton_state_length:
  "int (length (au_state (run (Automaton l r) calls))) = au_length (run (Automaton l r) calls)
   \<and> 3 \<le> au_length (run (Automaton l r) calls)
   \<and> length (au_state (snd (automaton_next (run (Automaton l r) calls))))
       = length (au_state (run (Automaton l r) calls))
   \<and> fst (automaton_next (run (Automaton l r) calls))
       = au_state (snd (automaton_next (run (Automaton l r) calls)))
   \<and> (\<not> isArray arg \<or> (\<exists>a. arg = JSArray a \<and> length a < 3) \<longrightarrow>
        feed arg this = ([WarnFeed], this))"
proof -
  let ?au = "run (Automaton l r) calls"
  have ok: "state_ok ?au" by (rule run_ok [OF Automaton_ok])
  have "nat (au_length ?au) = length (au_state ?au)"
    using ok unfolding state_ok_def by linarith
  then have nx: "length (au_state (snd (automaton_next ?au))) = length (au_state ?au)"
    by (simp add: automaton_next_def Let_def)
  have rt: "fst (automaton_next ?au) = au_state (snd (automaton_next ?au))"
    by (simp add: automaton_next_def Let_def)
  have fd: "\<not> isArray arg \<or> (\<exists>a. arg = JSArray a \<and> length a < 3) \<longrightarrow>
        feed arg this = ([WarnFeed], this)"
    by (auto simp: feed_def)
  from ok nx rt fd show ?thesis unfolding state_ok_def by blast
qed

text \<open>
  The theorem after \<open>feed([0,1,0,0])\<close>, \<open>rule(30)\<close> and \<open>next()\<close> on a new automaton,
  and at \<open>feed([1,1])\<close>.
\<close>

theorem automaton_state_length_witness:
  "au_state (run (Automaton 8 110)
       [CallFeed (JSArray [Num 0, Num 1, Num 0, Num 0]), CallRule (JSNumber (Integer 30)),
        CallNext])
     = [Num 1, Num 1, Num 1, Num 0]
   \<and> au_length (run (Automaton 8 110)
       [CallFeed (JSArray [Num 0, Num 1, Num 0, Num 0]), CallRule (JSNumber (Integer 30)),
        CallNext]) = 4
   \<and> feed (JSArray [Num 1, Num 1]) (Automaton 8 110) = ([WarnFeed], Automaton 8 110)"
proof -
  let ?calls = "[CallFeed (JSArray [Num 0, Num 1, Num 0, Num 0]),
                 CallRule (JSNumber (Integer 30)), CallNext]"
  have v: "au_state (run (Automaton 8 110) ?calls) = [Num 1, Num 1, Num 1, Num 0]"
    by code_simp
  have h: "\<not> isArray (JSArray [Num 1, Num 1])
           \<or> (\<exists>a. JSArray [Num 1, Num 1] = JSArray a \<and> length a < 3)" by simp
  from automaton_state_length [of 8 110 ?calls "JSArray [Num 1, Num 1]" "Automaton 8 110"] h v
  show ?thesis by simp
qed

end
